theory Spec2Isabelle
  imports Main
begin

section \<open>The Ledyard bridge: data\<close>

text \<open>
  The program is \<^verbatim>\<open>ledyard.c\<close>. Its integers are C \<^verbatim>\<open>int\<close>s; every count it
  keeps is bounded by the number of car threads of a simulation (at most 100), far from
  the limits of the type, so they are modelled as unbounded integers.
\<close>

definition MAX_CARS :: int where
  "MAX_CARS = 3"

definition NO_DIRECTION :: int where
  "NO_DIRECTION = - 1"

definition TO_HANOVER :: int where
  "TO_HANOVER = 0"

definition TO_NORWICH :: int where
  "TO_NORWICH = 1"

text \<open>
  \<^verbatim>\<open>struct bridge_state\<close>: the data fields. The mutex and the two condition variables are
  operating-system objects; what their calls return is an input of the functions below.
\<close>

record bridge_state =
  str_dir :: string
  dir :: int
  num_cars :: int
  wait_hanover :: int
  wait_norwich :: int

text \<open>The two condition variables of the bridge, as a car's pointers name them.\<close>

datatype cond_var = want_to_hanover | want_to_norwich

text \<open>
  A car holds the addresses of the two waiting counters of the bridge
  (\<^verbatim>\<open>&ledyard.wait_hanover\<close>, \<^verbatim>\<open>&ledyard.wait_norwich\<close>); \<open>deref\<close> reads through
  such a pointer and \<open>assign\<close> writes through it.
\<close>

datatype int_ptr = addr_wait_hanover | addr_wait_norwich

fun deref :: "int_ptr \<Rightarrow> bridge_state \<Rightarrow> int" where
  "deref addr_wait_hanover s = wait_hanover s"
| "deref addr_wait_norwich s = wait_norwich s"

fun assign :: "int_ptr \<Rightarrow> int \<Rightarrow> bridge_state \<Rightarrow> bridge_state" where
  "assign addr_wait_hanover v s = s\<lparr>wait_hanover := v\<rparr>"
| "assign addr_wait_norwich v s = s\<lparr>wait_norwich := v\<rparr>"

text \<open>
  \<^verbatim>\<open>struct car\<close>. Its fields \<^verbatim>\<open>str_dir\<close> and \<^verbatim>\<open>dir\<close> are \<open>car_str_dir\<close> and
  \<open>car_dir\<close> here, the bridge having fields of the same names.
\<close>

record car =
  car_str_dir :: string
  car_dir :: int
  other_dir :: int
  wait_dir :: int_ptr
  wait_other_dir :: int_ptr
  current :: cond_var
  other :: cond_var

text \<open>
  Every failure the program reports on \<^verbatim>\<open>stderr\<close> before it returns \<^verbatim>\<open>-1\<close>. A call
  either returns (\<open>Success\<close> for 0, \<open>Failure\<close> for -1) or does not return (\<open>Blocked\<close>):
  \<^verbatim>\<open>arrive_bridge\<close> that is still inside \<^verbatim>\<open>pthread_cond_wait\<close>, or a call whose
  \<^verbatim>\<open>pthread_mutex_lock\<close> waits for the mutex that its own thread has kept.
\<close>

datatype error =
    Lock_error
  | Cond_wait_error
  | Car_crash
  | Bridge_collapse
  | Invalid_state
  | Signal_error
  | Unlock_error

datatype status = Success | Failure error | Blocked


section \<open>The functions of the program\<close>

definition min_int :: "int \<Rightarrow> int \<Rightarrow> int" where
  "min_int a b = (if a < b then a else b)"

text \<open>
  \<^verbatim>\<open>initialize_car\<close>: the return code and the car. For a direction that is neither
  \<^verbatim>\<open>TO_HANOVER\<close> nor \<^verbatim>\<open>TO_NORWICH\<close> the fields of the freshly allocated car stay
  uninitialised: there is no car to speak of (\<open>None\<close>).
\<close>

definition initialize_car :: "int \<Rightarrow> int \<times> car option" where
  "initialize_car d =
     (if d = TO_HANOVER then
        (0, Some \<lparr>car_str_dir = ''Hanover'', car_dir = TO_HANOVER, other_dir = TO_NORWICH,
                  wait_dir = addr_wait_hanover, wait_other_dir = addr_wait_norwich,
                  current = want_to_hanover, other = want_to_norwich\<rparr>)
      else if d = TO_NORWICH then
        (0, Some \<lparr>car_str_dir = ''Norwich'', car_dir = TO_NORWICH, other_dir = TO_HANOVER,
                  wait_dir = addr_wait_norwich, wait_other_dir = addr_wait_hanover,
                  current = want_to_norwich, other = want_to_hanover\<rparr>)
      else (- 1, None))"

text \<open>
  \<^verbatim>\<open>initialize_bridge\<close>, given what \<^verbatim>\<open>pthread_mutex_init\<close> and the two
  \<^verbatim>\<open>pthread_cond_init\<close> calls return.
\<close>

definition initialize_bridge :: "int \<Rightarrow> int \<Rightarrow> int \<Rightarrow> bridge_state \<Rightarrow> int \<times> bridge_state" where
  "initialize_bridge mutex_rc hanover_rc norwich_rc s =
     (if mutex_rc \<noteq> 0 \<or> hanover_rc \<noteq> 0 \<or> norwich_rc \<noteq> 0 then (- 1, s)
      else (0, \<lparr>str_dir = ''Neither'', dir = NO_DIRECTION, num_cars = 0,
                wait_hanover = 0, wait_norwich = 0\<rparr>))"

subsection \<open>Arrival\<close>

text \<open>The condition of the waiting loop of \<^verbatim>\<open>arrive_bridge\<close>.\<close>

definition must_wait :: "car \<Rightarrow> bridge_state \<Rightarrow> bool" where
  "must_wait c s \<longleftrightarrow> dir s = other_dir c \<or> num_cars s \<ge> MAX_CARS"

text \<open>
  What \<^verbatim>\<open>arrive_bridge\<close> does once the loop is left: the error checks, the update of the
  bridge, the release of the lock (\<open>unlock_rc\<close> is what \<^verbatim>\<open>pthread_mutex_unlock\<close>
  returns). The three error returns leave the function with the lock held.
\<close>

definition get_on :: "car \<Rightarrow> int \<Rightarrow> bridge_state \<Rightarrow> status \<times> bridge_state" where
  "get_on c unlock_rc s =
     (if dir s = other_dir c then (Failure Car_crash, s)
      else if num_cars s \<ge> MAX_CARS then (Failure Bridge_collapse, s)
      else if dir s = NO_DIRECTION \<and> num_cars s \<noteq> 0 then (Failure Invalid_state, s)
      else
        let s1 = (if dir s = NO_DIRECTION
                  then s\<lparr>dir := car_dir c, str_dir := car_str_dir c\<rparr> else s);
            s2 = assign (wait_dir c) (deref (wait_dir c) s1 - 1) s1;
            s3 = s2\<lparr>num_cars := num_cars s2 + 1\<rparr>
        in (if unlock_rc \<noteq> 0 then Failure Unlock_error else Success, s3))"

text \<open>
  The waiting loop, entered with the lock held. Each element of \<open>wakes\<close> is one return of
  \<^verbatim>\<open>pthread_cond_wait\<close>: its return code and the bridge as the other threads have left it
  when the lock is held again. The loop condition is evaluated anew after every return.
  When the condition holds and no further return of the wait is supplied, the car is
  still waiting.
\<close>

fun arrive_wait :: "car \<Rightarrow> (int \<times> bridge_state) list \<Rightarrow> int \<Rightarrow> bridge_state
    \<Rightarrow> status \<times> bridge_state" where
  "arrive_wait c [] unlock_rc s =
     (if must_wait c s then (Blocked, s) else get_on c unlock_rc s)"
| "arrive_wait c ((rc, s') # wakes) unlock_rc s =
     (if must_wait c s then
        (if rc \<noteq> 0 then (Failure Cond_wait_error, s')
         else arrive_wait c wakes unlock_rc s')
      else get_on c unlock_rc s)"

definition arrive_bridge :: "car \<Rightarrow> int \<Rightarrow> (int \<times> bridge_state) list \<Rightarrow> int \<Rightarrow> bridge_state
    \<Rightarrow> status \<times> bridge_state" where
  "arrive_bridge c lock_rc wakes unlock_rc s =
     (if lock_rc \<noteq> 0 then (Failure Lock_error, s)
      else arrive_wait c wakes unlock_rc (assign (wait_dir c) (deref (wait_dir c) s + 1) s))"

subsection \<open>Observation\<close>

text \<open>
  \<^verbatim>\<open>on_bridge\<close>: the status, the bridge afterwards and the four values it prints
  (the number of cars, the direction string and the two waiting counts).
\<close>

definition on_bridge :: "int \<Rightarrow> int \<Rightarrow> bridge_state
    \<Rightarrow> status \<times> bridge_state \<times> (int \<times> string \<times> int \<times> int) option" where
  "on_bridge lock_rc unlock_rc s =
     (if lock_rc \<noteq> 0 then (Failure Lock_error, s, None)
      else (if unlock_rc \<noteq> 0 then Failure Unlock_error else Success, s,
            Some (num_cars s, str_dir s, wait_hanover s, wait_norwich s)))"

subsection \<open>Departure\<close>

text \<open>
  The update of the bridge in \<^verbatim>\<open>exit_bridge\<close> and the two signal counts it computes:
  the new bridge, \<^verbatim>\<open>num_sig_current\<close> and \<^verbatim>\<open>num_sig_other\<close>.
\<close>

definition exit_update :: "car \<Rightarrow> bridge_state \<Rightarrow> bridge_state \<times> int \<times> int" where
  "exit_update c s =
     (let s1 = s\<lparr>num_cars := num_cars s - 1\<rparr>;
          s2 = (if num_cars s1 = 0
                then s1\<lparr>dir := NO_DIRECTION, str_dir := ''Neither''\<rparr> else s1);
          num_sig_other = (if num_cars s1 = 0
                then min_int MAX_CARS (deref (wait_other_dir c) s2) else 0);
          num_sig_current = min_int (MAX_CARS - num_cars s2) (deref (wait_dir c) s2)
      in (s2, num_sig_current, num_sig_other))"

text \<open>
  One signalling loop \<^verbatim>\<open>for (i = 0; i < n; i++)\<close>, started at \<open>i\<close>. \<open>sigs\<close> lists the
  calls of \<^verbatim>\<open>pthread_cond_signal\<close> made so far in this \<^verbatim>\<open>exit_bridge\<close>, by condition
  variable; \<open>cond_signal k\<close> is what the call after \<open>k\<close> earlier ones returns. The result
  is whether the loop ran to its end, and the calls made.
\<close>

function signal_loop :: "cond_var \<Rightarrow> (nat \<Rightarrow> int) \<Rightarrow> int \<Rightarrow> int \<Rightarrow> cond_var list
    \<Rightarrow> bool \<times> cond_var list" where
  "signal_loop cv cond_signal i n sigs =
     (if i < n then
        (if cond_signal (length sigs) \<noteq> 0 then (False, sigs @ [cv])
         else signal_loop cv cond_signal (i + 1) n (sigs @ [cv]))
      else (True, sigs))"
  by pat_completeness auto
termination
  by (relation "measure (\<lambda>(cv, cond_signal, i, n, sigs). nat (n - i))") auto

declare signal_loop.simps [simp del]

definition exit_bridge :: "car \<Rightarrow> int \<Rightarrow> (nat \<Rightarrow> int) \<Rightarrow> int \<Rightarrow> bridge_state
    \<Rightarrow> status \<times> bridge_state \<times> cond_var list" where
  "exit_bridge c lock_rc cond_signal unlock_rc s =
     (if lock_rc \<noteq> 0 then (Failure Lock_error, s, [])
      else
        case exit_update c s of (s', num_sig_current, num_sig_other) \<Rightarrow>
          (case signal_loop (current c) cond_signal 0 num_sig_current [] of
             (False, sigs) \<Rightarrow> (Failure Signal_error, s', sigs)
           | (True, sigs) \<Rightarrow>
               (case signal_loop (other c) cond_signal 0 num_sig_other sigs of
                  (False, sigs') \<Rightarrow> (Failure Signal_error, s', sigs')
                | (True, sigs') \<Rightarrow>
                    (if unlock_rc \<noteq> 0 then Failure Unlock_error else Success, s', sigs'))))"

subsection \<open>One car thread\<close>





section \<open>The bridge and its cars as a transition system\<close>

text \<open>
  The lock makes every critical section atomic, and \<^verbatim>\<open>arrive_bridge\<close> gives the lock
  up only inside \<^verbatim>\<open>pthread_cond_wait\<close>. An execution in which the \<^verbatim>\<open>pthread\<close> calls
  succeed is therefore a sequence of three kinds of step: a new car calls
  \<^verbatim>\<open>arrive_bridge\<close> and runs until it waits or returns; a waiting car returns from its
  wait and runs on until it waits again or returns; a car on the bridge runs
  \<^verbatim>\<open>exit_bridge\<close>. A wait may return at any time (a signal is a hint, and
  \<^verbatim>\<open>pthread_cond_wait\<close> may wake spuriously), so the signals sent do not restrict the
  steps.

  Besides the bridge, a configuration records which cars wait in
  \<^verbatim>\<open>pthread_cond_wait\<close> (\<open>lobby\<close>), which cars have returned 0 from \<^verbatim>\<open>arrive_bridge\<close>
  and not yet called \<^verbatim>\<open>exit_bridge\<close> (\<open>crossing\<close>), and whether a car has left
  \<^verbatim>\<open>arrive_bridge\<close> through one of its error returns, which keep the lock (\<open>jammed\<close>):
  no critical section can be entered after that.
\<close>

record config =
  bridge :: bridge_state
  lobby :: "car list"
  crossing :: "car list"
  jammed :: bool

datatype event = Arrive int | Wake car | Exit car

definition initial_bridge :: bridge_state where
  "initial_bridge =
     snd (initialize_bridge 0 0 0
       \<lparr>str_dir = [], dir = 0, num_cars = 0, wait_hanover = 0, wait_norwich = 0\<rparr>)"

definition initial_config :: config where
  "initial_config = \<lparr>bridge = initial_bridge, lobby = [], crossing = [], jammed = False\<rparr>"

text \<open>Where a car is after a run of its arrival code.\<close>

fun place :: "car \<Rightarrow> status \<times> bridge_state \<Rightarrow> config \<Rightarrow> config" where
  "place c (Success, s) cfg = cfg\<lparr>bridge := s, crossing := c # crossing cfg\<rparr>"
| "place c (Blocked, s) cfg = cfg\<lparr>bridge := s, lobby := c # lobby cfg\<rparr>"
| "place c (Failure e, s) cfg = cfg\<lparr>bridge := s, jammed := True\<rparr>"

text \<open>
  One step; \<open>None\<close> when the event cannot happen: the lock is lost, the car to wake is
  not waiting, the car to leave is not on the bridge, or the direction of the new car is
  not one that \<^verbatim>\<open>simulation\<close> hands out.
\<close>

definition step :: "event \<Rightarrow> config \<Rightarrow> config option" where
  "step ev cfg =
     (if jammed cfg then None
      else case ev of
        Arrive d \<Rightarrow>
          (case initialize_car d of
             (rc, None) \<Rightarrow> None
           | (rc, Some c) \<Rightarrow> Some (place c (arrive_bridge c 0 [] 0 (bridge cfg)) cfg))
      | Wake c \<Rightarrow>
          (if c \<in> set (lobby cfg)
           then Some (place c (arrive_wait c [] 0 (bridge cfg))
                        (cfg\<lparr>lobby := remove1 c (lobby cfg)\<rparr>))
           else None)
      | Exit c \<Rightarrow>
          (if c \<in> set (crossing cfg)
           then (case exit_bridge c 0 (\<lambda>k. 0) 0 (bridge cfg) of
                   (st, s, sigs) \<Rightarrow>
                     Some (cfg\<lparr>bridge := s, crossing := remove1 c (crossing cfg)\<rparr>))
           else None))"

fun run :: "event list \<Rightarrow> config \<Rightarrow> config option" where
  "run [] cfg = Some cfg"
| "run (ev # evs) cfg = (case step ev cfg of None \<Rightarrow> None | Some cfg' \<Rightarrow> run evs cfg')"

text \<open>The invariants of the bridge state.\<close>

definition bridge_inv :: "bridge_state \<Rightarrow> bool" where
  "bridge_inv s \<longleftrightarrow>
     0 \<le> num_cars s \<and> num_cars s \<le> MAX_CARS \<and> (num_cars s = 0) = (dir s = NO_DIRECTION)"

text \<open>The two cars that \<^verbatim>\<open>initialize_car\<close> makes.\<close>

definition hanover_car :: car where
  "hanover_car = the (snd (initialize_car TO_HANOVER))"

definition norwich_car :: car where
  "norwich_car = the (snd (initialize_car TO_NORWICH))"

definition initialized :: "car \<Rightarrow> bool" where
  "initialized c \<longleftrightarrow> c = hanover_car \<or> c = norwich_car"

text \<open>
  The invariant of the transition system: the lock is not lost, the bridge satisfies its
  invariants, \<^verbatim>\<open>num_cars\<close> counts the cars that are crossing, every one of them drives
  in the direction of the bridge, and every car comes from \<^verbatim>\<open>initialize_car\<close>.
\<close>

definition sys_inv :: "config \<Rightarrow> bool" where
  "sys_inv cfg \<longleftrightarrow>
     \<not> jammed cfg \<and> bridge_inv (bridge cfg) \<and>
     num_cars (bridge cfg) = int (length (crossing cfg)) \<and>
     (\<forall>c \<in> set (crossing cfg). initialized c \<and> car_dir c = dir (bridge cfg)) \<and>
     (\<forall>c \<in> set (lobby cfg). initialized c)"

subsection \<open>Concrete bridges and surroundings\<close>

text \<open>A full bridge towards Hanover, nobody waiting.\<close>

definition scenario1 :: bridge_state where
  "scenario1 = \<lparr>str_dir = ''Hanover'', dir = TO_HANOVER, num_cars = 3,
                 wait_hanover = 0, wait_norwich = 0\<rparr>"

text \<open>One car towards Hanover on the bridge, five cars waiting for Hanover, two for Norwich.\<close>

definition scenario4 :: bridge_state where
  "scenario4 = \<lparr>str_dir = ''Hanover'', dir = TO_HANOVER, num_cars = 1,
                 wait_hanover = 5, wait_norwich = 2\<rparr>"



section \<open>Basic facts\<close>

lemmas constants = MAX_CARS_def NO_DIRECTION_def TO_HANOVER_def TO_NORWICH_def

lemma min_int_min: "min_int a b = min a b"
  by (simp add: min_int_def min_def)

lemma hanover_car_simps:
  "hanover_car = \<lparr>car_str_dir = ''Hanover'', car_dir = TO_HANOVER, other_dir = TO_NORWICH,
                  wait_dir = addr_wait_hanover, wait_other_dir = addr_wait_norwich,
                  current = want_to_hanover, other = want_to_norwich\<rparr>"
  by (simp add: hanover_car_def initialize_car_def)

lemma norwich_car_simps:
  "norwich_car = \<lparr>car_str_dir = ''Norwich'', car_dir = TO_NORWICH, other_dir = TO_HANOVER,
                  wait_dir = addr_wait_norwich, wait_other_dir = addr_wait_hanover,
                  current = want_to_norwich, other = want_to_hanover\<rparr>"
  by (simp add: norwich_car_def initialize_car_def constants)

lemma initialize_car_cases:
  "initialize_car d = (rc, Some c) \<Longrightarrow> c = hanover_car \<or> c = norwich_car"
  by (auto simp: initialize_car_def hanover_car_simps norwich_car_simps split: if_splits)

lemma initialized_dirs:
  "initialized c \<Longrightarrow> initialized c' \<Longrightarrow> car_dir c = car_dir c' \<Longrightarrow> car_dir c \<noteq> other_dir c'"
  by (auto simp: initialized_def hanover_car_simps norwich_car_simps constants)

lemma deref_num_cars [simp]: "deref p (s\<lparr>num_cars := n\<rparr>) = deref p s"
  by (cases p) simp_all

lemma deref_dir [simp]: "deref p (s\<lparr>dir := n\<rparr>) = deref p s"
  by (cases p) simp_all

lemma deref_str_dir [simp]: "deref p (s\<lparr>str_dir := n\<rparr>) = deref p s"
  by (cases p) simp_all

lemma deref_assign [simp]: "deref p (assign p v s) = v"
  by (cases p) simp_all

lemma assign_fields [simp]:
  "dir (assign p v s) = dir s" "num_cars (assign p v s) = num_cars s"
  "str_dir (assign p v s) = str_dir s"
  by (cases p; simp)+

lemma bridge_inv_assign [simp]: "bridge_inv (assign p v s) = bridge_inv s"
  by (simp add: bridge_inv_def)


subsection \<open>The signalling loops\<close>

lemma signal_loop_all_ok:
  "\<forall>k. cond_signal k = 0 \<Longrightarrow>
   signal_loop cv cond_signal i n sigs = (True, sigs @ replicate (nat (n - i)) cv)"
proof (induction cv cond_signal i n sigs rule: signal_loop.induct)
  case (1 cv cond_signal i n sigs)
  have ok: "cond_signal (length sigs) = 0" using 1(2) by blast
  show ?case
  proof (cases "i < n")
    case True
    then have suc: "nat (n - i) = Suc (nat (n - (i + 1)))" by simp
    have "signal_loop cv cond_signal i n sigs = signal_loop cv cond_signal (i + 1) n (sigs @ [cv])"
      using True ok by (subst signal_loop.simps) simp
    also have "\<dots> = (True, (sigs @ [cv]) @ replicate (nat (n - (i + 1))) cv)"
      using 1(1)[OF True _ 1(2)] ok by simp
    finally show ?thesis by (simp add: suc)
  next
    case False
    then show ?thesis by (subst signal_loop.simps) simp
  qed
qed

lemma signal_loop_calls:
  "signal_loop cv cond_signal i n sigs = (b, sigs') \<Longrightarrow>
   \<exists>k. k \<le> nat (n - i) \<and> sigs' = sigs @ replicate k cv \<and> (b \<longrightarrow> k = nat (n - i))"
proof (induction cv cond_signal i n sigs rule: signal_loop.induct)
  case (1 cv cond_signal i n sigs)
  note unfold = signal_loop.simps[of cv cond_signal i n sigs]
  show ?case
  proof (cases "i < n")
    case False
    with 1(2) show ?thesis by (auto simp: unfold)
  next
    case True
    note lt = this
    have suc: "nat (n - i) = Suc (nat (n - (i + 1)))" using lt by simp
    show ?thesis
    proof (cases "cond_signal (length sigs) = 0")
      case False
      with lt 1(2) have "sigs' = sigs @ replicate 1 cv" "\<not> b"
        by (auto simp: unfold)
      then show ?thesis using suc by (intro exI[of _ 1]) auto
    next
      case True
      with lt 1(2) have "signal_loop cv cond_signal (i + 1) n (sigs @ [cv]) = (b, sigs')"
        by (simp add: unfold)
      from 1(1)[OF lt _ this] True obtain k where
        k: "k \<le> nat (n - (i + 1))" "sigs' = (sigs @ [cv]) @ replicate k cv"
          "b \<longrightarrow> k = nat (n - (i + 1))"
        by auto
      then show ?thesis using suc
        by (intro exI[of _ "Suc k"]) (auto simp: replicate_app_Cons_same)
    qed
  qed
qed

subsection \<open>Departure\<close>

lemma exit_bridge_state:
  "exit_update c s = (s', a, b) \<Longrightarrow> fst (snd (exit_bridge c 0 cond_signal unlock_rc s)) = s'"
  by (simp add: exit_bridge_def split: prod.splits bool.splits)

lemma exit_update_bridge:
  "fst (exit_update c s) =
     (if num_cars s = 1
      then s\<lparr>num_cars := 0, dir := NO_DIRECTION, str_dir := ''Neither''\<rparr>
      else s\<lparr>num_cars := num_cars s - 1\<rparr>)"
  by (simp add: exit_update_def Let_def)

text \<open>
  The calls of \<^verbatim>\<open>pthread_cond_signal\<close> in one \<^verbatim>\<open>exit_bridge\<close>: some on the car's own
  condition variable, then some on the other one, never more than the two counts, none
  on the other one unless the first loop ran to its end, and all of them when the call
  succeeds.
\<close>

lemma exit_bridge_sigs:
  assumes upd: "exit_update c s = (s', a, b)"
    and ex: "exit_bridge c lock_rc cond_signal unlock_rc s = (st, s'', sigs)"
  shows "\<exists>k1 k2. sigs = replicate k1 (current c) @ replicate k2 (other c) \<and>
     k1 \<le> nat a \<and> k2 \<le> nat b \<and> (k1 < nat a \<longrightarrow> k2 = 0) \<and>
     (lock_rc = 0 \<and> (\<forall>k. cond_signal k = 0) \<or> st = Success \<longrightarrow> k1 = nat a \<and> k2 = nat b)"
proof (cases "lock_rc = 0")
  case False
  with ex have "sigs = []" "st \<noteq> Success" by (auto simp: exit_bridge_def)
  then show ?thesis using False by (intro exI[of _ 0]) auto
next
  case True
  obtain b1 sigs1 where l1: "signal_loop (current c) cond_signal 0 a [] = (b1, sigs1)"
    by (cases "signal_loop (current c) cond_signal 0 a []") auto
  from signal_loop_calls[OF l1] obtain k1 where
    k1: "k1 \<le> nat a" "sigs1 = replicate k1 (current c)" "b1 \<longrightarrow> k1 = nat a"
    by auto
  show ?thesis
  proof (cases b1)
    case False
    with True upd ex l1 have "sigs = sigs1" "st \<noteq> Success"
      by (auto simp: exit_bridge_def)
    moreover have "\<not> (\<forall>k. cond_signal k = 0)"
      using signal_loop_all_ok[of cond_signal "current c" 0 a "[]"] l1 False by auto
    ultimately show ?thesis using k1 True
      by (intro exI[of _ k1] exI[of _ 0]) auto
  next
    case b1: True
    obtain b2 sigs2 where l2: "signal_loop (other c) cond_signal 0 b sigs1 = (b2, sigs2)"
      by (cases "signal_loop (other c) cond_signal 0 b sigs1") auto
    from signal_loop_calls[OF l2] obtain k2 where
      k2: "k2 \<le> nat b" "sigs2 = sigs1 @ replicate k2 (other c)" "b2 \<longrightarrow> k2 = nat b"
      by auto
    have sigs: "sigs = sigs2" using True upd ex l1 l2 b1
      by (auto simp: exit_bridge_def split: bool.splits)
    have st: "st = Success \<Longrightarrow> b2" using True upd ex l1 l2 b1
      by (auto simp: exit_bridge_def split: bool.splits if_splits)
    have ok: "\<forall>k. cond_signal k = 0 \<Longrightarrow> b2"
      using signal_loop_all_ok[of cond_signal "other c" 0 b sigs1] l2 by auto
    show ?thesis using sigs st ok k1 k2 b1
      by (intro exI[of _ k1] exI[of _ k2]) auto
  qed
qed

lemma scenario4_update:
  "exit_update hanover_car scenario4 =
     (\<lparr>str_dir = ''Neither'', dir = NO_DIRECTION, num_cars = 0,
       wait_hanover = 5, wait_norwich = 2\<rparr>, 3, 2)"
  by (simp add: exit_update_def scenario4_def hanover_car_simps min_int_def constants)

lemma scenario4_exit:
  "exit_bridge hanover_car 0 (\<lambda>k. 0) 0 scenario4 =
     (Success,
      \<lparr>str_dir = ''Neither'', dir = NO_DIRECTION, num_cars = 0, wait_hanover = 5, wait_norwich = 2\<rparr>,
      [want_to_hanover, want_to_hanover, want_to_hanover, want_to_norwich, want_to_norwich])"
  by (simp add: exit_bridge_def exit_update_def scenario4_def hanover_car_simps min_int_def
      constants signal_loop_all_ok numeral_eq_Suc)

subsection \<open>Arrival\<close>

text \<open>What one run of the arrival code does to a bridge that satisfies the invariants.\<close>

lemma get_on_admits:
  assumes "\<not> must_wait c s" and "bridge_inv s"
  shows "get_on c unlock_rc s =
     (if unlock_rc \<noteq> 0 then Failure Unlock_error else Success,
      (assign (wait_dir c) (deref (wait_dir c) s - 1)
         (if dir s = NO_DIRECTION then s\<lparr>dir := car_dir c, str_dir := car_str_dir c\<rparr> else s))
       \<lparr>num_cars := num_cars s + 1\<rparr>)"
  using assms by (auto simp: get_on_def must_wait_def bridge_inv_def Let_def)

lemma get_on_admitted:
  assumes "get_on c unlock_rc s = (st, t)" and "st = Success \<or> st = Failure Unlock_error"
  shows "dir s \<noteq> other_dir c \<and> num_cars s < MAX_CARS \<and>
     num_cars t = num_cars s + 1 \<and> deref (wait_dir c) t = deref (wait_dir c) s - 1"
  using assms by (auto simp: get_on_def Let_def split: if_splits)

lemma arrive_wait_admitted:
  assumes "arrive_wait c wakes unlock_rc s = (st, t)"
    and "st = Success \<or> st = Failure Unlock_error"
  shows "\<exists>a \<in> set (s # map snd wakes).
     dir a \<noteq> other_dir c \<and> num_cars a < MAX_CARS \<and>
     num_cars t = num_cars a + 1 \<and> deref (wait_dir c) t = deref (wait_dir c) a - 1"
  using assms
proof (induction wakes arbitrary: s)
  case Nil
  then show ?case using get_on_admitted[of c unlock_rc s st t]
    by (auto split: if_splits)
next
  case (Cons w wakes)
  obtain rc s' where w: "w = (rc, s')" by (cases w)
  show ?case
  proof (cases "must_wait c s")
    case False
    with Cons.prems show ?thesis using get_on_admitted[of c unlock_rc s st t]
      by (auto simp: w)
  next
    case True
    with Cons.prems have "rc = 0" "arrive_wait c wakes unlock_rc s' = (st, t)"
      by (auto simp: w split: if_splits)
    from Cons.IH[OF this(2) Cons.prems(2)] show ?thesis by (auto simp: w)
  qed
qed


lemma get_on_num_cars:
  "num_cars (snd (get_on c unlock_rc s)) \<noteq> num_cars s \<Longrightarrow> dir s \<noteq> other_dir c"
  by (auto simp: get_on_def)

lemma arrive_wait_no_check_fails:
  "bridge_inv s \<Longrightarrow> \<forall>t \<in> snd ` set wakes. bridge_inv t \<Longrightarrow>
   fst (arrive_wait c wakes unlock_rc s)
     \<notin> {Failure Car_crash, Failure Bridge_collapse, Failure Invalid_state}"
proof (induction wakes arbitrary: s)
  case Nil
  then show ?case by (cases "must_wait c s") (simp_all add: get_on_admits)
next
  case (Cons w wakes)
  obtain rc t where w: "w = (rc, t)" by (cases w)
  show ?case
  proof (cases "must_wait c s")
    case False
    then show ?thesis using Cons.prems(1) by (simp add: w get_on_admits)
  next
    case True
    show ?thesis
    proof (cases "rc = 0")
      case False
      with True show ?thesis by (simp add: w)
    next
      case rc: True
      have "bridge_inv t" "\<forall>t \<in> snd ` set wakes. bridge_inv t"
        using Cons.prems(2) by (simp_all add: w)
      from Cons.IH[OF this] True rc show ?thesis by (simp add: w)
    qed
  qed
qed

subsection \<open>The transition system keeps its invariant\<close>

lemma sys_inv_initial: "sys_inv initial_config"
  by (simp add: sys_inv_def initial_config_def initial_bridge_def initialize_bridge_def
      bridge_inv_def constants)

lemma place_arrive_wait:
  assumes inv: "sys_inv (cfg\<lparr>bridge := s\<rparr>)" and c: "initialized c"
  shows "sys_inv (place c (arrive_wait c [] 0 s) cfg)"
proof (cases "must_wait c s")
  case True
  then show ?thesis using inv c by (simp add: sys_inv_def)
next
  case False
  have bi: "bridge_inv s" using inv by (simp add: sys_inv_def)
  have dirs: "dir s = NO_DIRECTION \<or> dir s = car_dir c"
  proof (cases "crossing cfg")
    case Nil
    then show ?thesis using inv by (auto simp: sys_inv_def bridge_inv_def)
  next
    case (Cons c' cs)
    then have "initialized c'" "car_dir c' = dir s" using inv by (auto simp: sys_inv_def)
    then show ?thesis using False c
      by (auto simp: initialized_def must_wait_def hanover_car_simps norwich_car_simps)
  qed
  have emp: "dir s = NO_DIRECTION \<Longrightarrow> crossing cfg = []"
    using inv by (auto simp: sys_inv_def bridge_inv_def)
  define s' where "s' = snd (arrive_wait c [] 0 s)"
  have res: "arrive_wait c [] 0 s = (Success, s')"
    using False by (simp add: s'_def get_on_admits[OF False bi])
  have num: "num_cars s' = num_cars s + 1"
    using False by (simp add: s'_def get_on_admits[OF False bi])
  have dir: "dir s' = car_dir c"
    using False dirs by (auto simp: s'_def get_on_admits[OF False bi])
  have nd: "car_dir c \<noteq> NO_DIRECTION"
    using c by (auto simp: initialized_def hanover_car_simps norwich_car_simps constants)
  have lt: "num_cars s < MAX_CARS" using False by (simp add: must_wait_def)
  have old: "\<forall>x \<in> set (crossing cfg). initialized x \<and> car_dir x = car_dir c"
  proof (cases "dir s = NO_DIRECTION")
    case True
    then show ?thesis using emp by simp
  next
    case False
    with dirs have "dir s = car_dir c" by simp
    then show ?thesis using inv by (simp add: sys_inv_def)
  qed
  have bi': "bridge_inv s'"
    using bi lt nd by (simp add: bridge_inv_def num dir)
  show ?thesis
    unfolding res using inv c old bi' by (simp add: sys_inv_def num dir)
qed

lemma place_bridge [simp]: "place c r (cfg\<lparr>bridge := s\<rparr>) = place c r cfg"
  by (cases r; cases "fst r"; simp)

lemma step_Exit:
  assumes inv: "sys_inv cfg" and c: "c \<in> set (crossing cfg)"
  shows "sys_inv (cfg\<lparr>bridge := fst (exit_update c (bridge cfg)),
                     crossing := remove1 c (crossing cfg)\<rparr>)"
proof -
  have sub: "\<And>x. x \<in> set (remove1 c (crossing cfg)) \<Longrightarrow> x \<in> set (crossing cfg)"
    using set_remove1_subset by fast
  have "length (crossing cfg) \<ge> 1" using c by (cases "crossing cfg") auto
  moreover have "length (remove1 c (crossing cfg)) = length (crossing cfg) - 1"
    using c by (simp add: length_remove1)
  ultimately have l1: "int (length (remove1 c (crossing cfg))) = int (length (crossing cfg)) - 1"
    by linarith
  have n: "num_cars (bridge cfg) = int (length (crossing cfg))" "\<not> jammed cfg"
    "bridge_inv (bridge cfg)" "\<forall>c \<in> set (lobby cfg). initialized c"
    "\<forall>c \<in> set (crossing cfg). initialized c \<and> car_dir c = dir (bridge cfg)"
    using inv by (simp_all add: sys_inv_def)
  have pos: "1 \<le> num_cars (bridge cfg)"
    using c n(1) by (cases "crossing cfg") auto
  show ?thesis
  proof (cases "num_cars (bridge cfg) = 1")
    case True
    then have "remove1 c (crossing cfg) = []" using l1 n(1) by simp
    then show ?thesis using True n
      by (simp add: sys_inv_def exit_update_bridge bridge_inv_def)
  next
    case False
    then have "dir (bridge cfg) \<noteq> NO_DIRECTION" "num_cars (bridge cfg) - 1 \<noteq> 0"
      using pos n(3) by (auto simp: bridge_inv_def)
    then show ?thesis using False n l1 sub pos
      by (simp add: sys_inv_def exit_update_bridge bridge_inv_def)
  qed
qed

lemma step_inv:
  assumes "sys_inv cfg" and "step ev cfg = Some cfg'"
  shows "sys_inv cfg'"
proof (cases ev)
  case (Arrive d)
  with assms obtain rc c where ic: "initialize_car d = (rc, Some c)"
    and cfg': "cfg' = place c (arrive_bridge c 0 [] 0 (bridge cfg)) cfg"
    by (auto simp: step_def sys_inv_def split: prod.splits option.splits if_splits)
  have "initialized c" using initialize_car_cases[OF ic] by (simp add: initialized_def)
  moreover have "sys_inv (cfg\<lparr>bridge := assign (wait_dir c) (deref (wait_dir c) (bridge cfg) + 1) (bridge cfg)\<rparr>)"
    using assms(1) by (simp add: sys_inv_def)
  ultimately show ?thesis unfolding cfg' arrive_bridge_def
    using place_arrive_wait by simp
next
  case (Wake c)
  with assms have c: "c \<in> set (lobby cfg)"
    and cfg': "cfg' = place c (arrive_wait c [] 0 (bridge cfg)) (cfg\<lparr>lobby := remove1 c (lobby cfg)\<rparr>)"
    by (auto simp: step_def sys_inv_def split: if_splits)
  have sub: "\<And>x. x \<in> set (remove1 c (lobby cfg)) \<Longrightarrow> x \<in> set (lobby cfg)"
    using set_remove1_subset by fast
  have "initialized c" using assms(1) c by (simp add: sys_inv_def)
  moreover have "sys_inv (cfg\<lparr>lobby := remove1 c (lobby cfg), bridge := bridge cfg\<rparr>)"
    using assms(1) sub by (auto simp: sys_inv_def)
  ultimately show ?thesis unfolding cfg'
    using place_arrive_wait[where cfg = "cfg\<lparr>lobby := remove1 c (lobby cfg)\<rparr>" and s = "bridge cfg" and c = c] by simp
next
  case (Exit c)
  with assms have c: "c \<in> set (crossing cfg)"
    and cfg': "cfg' = cfg\<lparr>bridge := fst (snd (exit_bridge c 0 (\<lambda>k. 0) 0 (bridge cfg))),
                          crossing := remove1 c (crossing cfg)\<rparr>"
    by (auto simp: step_def sys_inv_def split: if_splits prod.splits)
  have "fst (snd (exit_bridge c 0 (\<lambda>k. 0) 0 (bridge cfg))) = fst (exit_update c (bridge cfg))"
    by (cases "exit_update c (bridge cfg)") (simp add: exit_bridge_state)
  then show ?thesis unfolding cfg' using step_Exit[OF assms(1) c] by simp
qed

lemma run_inv: "sys_inv cfg \<Longrightarrow> run evs cfg = Some cfg' \<Longrightarrow> sys_inv cfg'"
proof (induction evs arbitrary: cfg)
  case Nil
  then show ?case by simp
next
  case (Cons ev evs)
  then show ?case by (auto split: option.splits dest: step_inv)
qed

lemma reachable_inv: "run evs initial_config = Some cfg \<Longrightarrow> sys_inv cfg"
  using run_inv[OF sys_inv_initial] .

text \<open>
  Three runs: two cars for Hanover get on and a car for Norwich has to wait; then the two
  cars leave; then the car for Norwich returns from its wait and gets on.
\<close>

lemma run_scenario2:
  "run [Arrive TO_HANOVER, Arrive TO_HANOVER, Arrive TO_NORWICH] initial_config =
     Some \<lparr>bridge = \<lparr>str_dir = ''Hanover'', dir = TO_HANOVER, num_cars = 2,
                     wait_hanover = 0, wait_norwich = 1\<rparr>,
           lobby = [norwich_car], crossing = [hanover_car, hanover_car], jammed = False\<rparr>"
  by (simp add: step_def initial_config_def initial_bridge_def initialize_bridge_def
      initialize_car_def arrive_bridge_def must_wait_def get_on_def
      hanover_car_simps norwich_car_simps constants)

lemma run_scenario3:
  "run [Arrive TO_HANOVER, Arrive TO_HANOVER, Arrive TO_NORWICH, Exit hanover_car,
        Exit hanover_car] initial_config =
     Some \<lparr>bridge = \<lparr>str_dir = ''Neither'', dir = NO_DIRECTION, num_cars = 0,
                     wait_hanover = 0, wait_norwich = 1\<rparr>,
           lobby = [norwich_car], crossing = [], jammed = False\<rparr>"
  by (simp add: step_def initial_config_def initial_bridge_def initialize_bridge_def
      initialize_car_def arrive_bridge_def must_wait_def get_on_def exit_bridge_def
      exit_update_def min_int_def signal_loop_all_ok
      hanover_car_simps norwich_car_simps constants)

lemma step_scenario3:
  "step (Wake norwich_car)
     \<lparr>bridge = \<lparr>str_dir = ''Neither'', dir = NO_DIRECTION, num_cars = 0,
                     wait_hanover = 0, wait_norwich = 1\<rparr>,
           lobby = [norwich_car], crossing = [], jammed = False\<rparr> =
     Some \<lparr>bridge = \<lparr>str_dir = ''Norwich'', dir = TO_NORWICH, num_cars = 1,
                     wait_hanover = 0, wait_norwich = 0\<rparr>,
           lobby = [], crossing = [norwich_car], jammed = False\<rparr>"
  by (simp add: step_def must_wait_def get_on_def norwich_car_simps constants)

section \<open>The claims\<close>

subsection \<open>C1: one direction at a time\<close>

text \<open>
  Claim C1. In every configuration reached from the initialised bridge by arrivals,
  returns from the wait and departures of cars that are on the bridge, all cars on the
  bridge drive in the direction the bridge records, so no two of them drive in opposite
  directions, and \<^verbatim>\<open>num_cars\<close> is their number. \<^verbatim>\<open>arrive_bridge\<close> changes
  \<^verbatim>\<open>num_cars\<close> only when the direction of the bridge is not the one opposite to the car.
\<close>

theorem one_direction_on_bridge:
  assumes "run evs initial_config = Some cfg"
  shows "(\<forall>c \<in> set (crossing cfg). car_dir c = dir (bridge cfg)) \<and>
     (\<forall>c1 \<in> set (crossing cfg). \<forall>c2 \<in> set (crossing cfg). car_dir c1 \<noteq> other_dir c2) \<and>
     num_cars (bridge cfg) = int (length (crossing cfg)) \<and>
     (num_cars (snd (arrive_bridge c0 lock_rc [] unlock_rc s0)) \<noteq> num_cars s0
        \<longrightarrow> dir s0 \<noteq> other_dir c0)"
proof -
  have inv: "sys_inv cfg" using assms by (rule reachable_inv)
  have a: "\<forall>c \<in> set (crossing cfg). car_dir c = dir (bridge cfg)"
    using inv by (simp add: sys_inv_def)
  have b: "\<forall>c1 \<in> set (crossing cfg). \<forall>c2 \<in> set (crossing cfg). car_dir c1 \<noteq> other_dir c2"
  proof (intro ballI)
    fix c1 c2
    assume "c1 \<in> set (crossing cfg)" "c2 \<in> set (crossing cfg)"
    then have "initialized c1" "initialized c2" "car_dir c1 = car_dir c2"
      using inv by (auto simp: sys_inv_def)
    then show "car_dir c1 \<noteq> other_dir c2" by (rule initialized_dirs)
  qed
  have c: "num_cars (bridge cfg) = int (length (crossing cfg))"
    using inv by (simp add: sys_inv_def)
  have d: "num_cars (snd (arrive_bridge c0 lock_rc [] unlock_rc s0)) \<noteq> num_cars s0
        \<longrightarrow> dir s0 \<noteq> other_dir c0"
    using get_on_num_cars[of c0 unlock_rc "assign (wait_dir c0) (deref (wait_dir c0) s0 + 1) s0"]
    by (auto simp: arrive_bridge_def)
  from a b c d show ?thesis by blast
qed

theorem one_direction_on_bridge_witness:
  "run [Arrive TO_HANOVER, Arrive TO_HANOVER, Arrive TO_NORWICH] initial_config =
     Some \<lparr>bridge = \<lparr>str_dir = ''Hanover'', dir = TO_HANOVER, num_cars = 2,
                     wait_hanover = 0, wait_norwich = 1\<rparr>,
           lobby = [norwich_car], crossing = [hanover_car, hanover_car], jammed = False\<rparr> \<and>
   car_dir hanover_car = TO_HANOVER \<and> car_dir hanover_car \<noteq> other_dir hanover_car"
  using one_direction_on_bridge[OF run_scenario2, of hanover_car 0 0 initial_bridge] run_scenario2
  by (simp del: run.simps add: hanover_car_simps constants)

subsection \<open>C2: the invariants of the bridge state\<close>

text \<open>
  Claim C2. Starting from the initialised bridge, with \<^verbatim>\<open>exit_bridge\<close> run only by cars
  that \<^verbatim>\<open>arrive_bridge\<close> has admitted and that have not left yet, every reached bridge
  state has \<open>0 \<le> num_cars \<le> MAX_CARS\<close> and \<open>num_cars = 0\<close> exactly when the direction
  is \<open>NO_DIRECTION\<close>, and every further step keeps both.
\<close>

theorem bridge_invariants:
  assumes "run evs initial_config = Some cfg"
  shows "0 \<le> num_cars (bridge cfg) \<and> num_cars (bridge cfg) \<le> MAX_CARS \<and>
     (num_cars (bridge cfg) = 0 \<longleftrightarrow> dir (bridge cfg) = NO_DIRECTION) \<and>
     (step ev cfg = Some cfg' \<longrightarrow>
        0 \<le> num_cars (bridge cfg') \<and> num_cars (bridge cfg') \<le> MAX_CARS \<and>
        (num_cars (bridge cfg') = 0 \<longleftrightarrow> dir (bridge cfg') = NO_DIRECTION))"
proof -
  have inv: "sys_inv cfg" using assms by (rule reachable_inv)
  then have "bridge_inv (bridge cfg)" by (simp add: sys_inv_def)
  moreover have "bridge_inv (bridge cfg')" if "step ev cfg = Some cfg'"
    using step_inv[OF inv that] by (simp add: sys_inv_def)
  ultimately show ?thesis by (simp add: bridge_inv_def)
qed

theorem bridge_invariants_witness:
  "run [Arrive TO_HANOVER, Arrive TO_HANOVER, Arrive TO_NORWICH, Exit hanover_car,
        Exit hanover_car] initial_config =
     Some \<lparr>bridge = \<lparr>str_dir = ''Neither'', dir = NO_DIRECTION, num_cars = 0,
                     wait_hanover = 0, wait_norwich = 1\<rparr>,
           lobby = [norwich_car], crossing = [], jammed = False\<rparr> \<and>
   step (Wake norwich_car)
     \<lparr>bridge = \<lparr>str_dir = ''Neither'', dir = NO_DIRECTION, num_cars = 0,
                     wait_hanover = 0, wait_norwich = 1\<rparr>,
           lobby = [norwich_car], crossing = [], jammed = False\<rparr> =
     Some \<lparr>bridge = \<lparr>str_dir = ''Norwich'', dir = TO_NORWICH, num_cars = 1,
                     wait_hanover = 0, wait_norwich = 0\<rparr>,
           lobby = [], crossing = [norwich_car], jammed = False\<rparr> \<and>
   (1::int) \<le> MAX_CARS \<and> TO_NORWICH \<noteq> NO_DIRECTION"
  using bridge_invariants[OF run_scenario3, where ev = "Wake norwich_car" and cfg' =
      "\<lparr>bridge = \<lparr>str_dir = ''Norwich'', dir = TO_NORWICH, num_cars = 1,
                     wait_hanover = 0, wait_norwich = 0\<rparr>,
           lobby = [], crossing = [norwich_car], jammed = False\<rparr>"]
    run_scenario3 step_scenario3
  by (simp del: run.simps)

subsection \<open>C3: when an arriving car is admitted\<close>

text \<open>
  Claim C3. The waiting loop of \<^verbatim>\<open>arrive_bridge\<close> holds the car back while the bridge
  runs in the opposite direction or \<^verbatim>\<open>num_cars \<ge> MAX_CARS\<close>: without a return of the
  wait the car stays blocked and the bridge is untouched, and after every return of the
  wait the same condition is evaluated again. When \<^verbatim>\<open>arrive_bridge\<close> has admitted the
  car (it returns 0, or -1 only because the final unlock failed), it did so in a state it
  saw (on entry, after counting the car as waiting, or after a return of the wait) whose
  direction was not the opposite one and where \<^verbatim>\<open>num_cars < MAX_CARS\<close>, and it took the
  car out of the waiting count and added it to \<^verbatim>\<open>num_cars\<close> there. In particular a car
  that drives in the direction of the bridge is blocked when the bridge is full.
\<close>

theorem arrival_admission:
  "(must_wait c s \<longleftrightarrow> dir s = other_dir c \<or> num_cars s \<ge> MAX_CARS) \<and>
   (must_wait c s \<longrightarrow>
      arrive_wait c [] unlock_rc s = (Blocked, s) \<and>
      arrive_wait c ((0, s') # wakes) unlock_rc s = arrive_wait c wakes unlock_rc s') \<and>
   (arrive_bridge c lock_rc wakes unlock_rc s = (st, t) \<and>
      (st = Success \<or> st = Failure Unlock_error) \<longrightarrow>
      (\<exists>a \<in> set (assign (wait_dir c) (deref (wait_dir c) s + 1) s # map snd wakes).
         dir a \<noteq> other_dir c \<and> num_cars a < MAX_CARS \<and>
         num_cars t = num_cars a + 1 \<and> deref (wait_dir c) t = deref (wait_dir c) a - 1)) \<and>
   (dir s = car_dir c \<and> car_dir c \<noteq> other_dir c \<and> num_cars s = MAX_CARS \<longrightarrow>
      \<not> dir s = other_dir c \<and>
      arrive_bridge c 0 [] unlock_rc s =
        (Blocked, assign (wait_dir c) (deref (wait_dir c) s + 1) s))"
proof -
  have a: "must_wait c s \<longrightarrow>
      arrive_wait c [] unlock_rc s = (Blocked, s) \<and>
      arrive_wait c ((0, s') # wakes) unlock_rc s = arrive_wait c wakes unlock_rc s'"
    by simp
  have b: "arrive_bridge c lock_rc wakes unlock_rc s = (st, t) \<and>
      (st = Success \<or> st = Failure Unlock_error) \<longrightarrow>
      (\<exists>a \<in> set (assign (wait_dir c) (deref (wait_dir c) s + 1) s # map snd wakes).
         dir a \<noteq> other_dir c \<and> num_cars a < MAX_CARS \<and>
         num_cars t = num_cars a + 1 \<and> deref (wait_dir c) t = deref (wait_dir c) a - 1)"
  proof (intro impI, elim conjE)
    assume r: "arrive_bridge c lock_rc wakes unlock_rc s = (st, t)"
      and st: "st = Success \<or> st = Failure Unlock_error"
    from r st have "arrive_wait c wakes unlock_rc (assign (wait_dir c) (deref (wait_dir c) s + 1) s) = (st, t)"
      by (auto simp: arrive_bridge_def split: if_splits)
    from arrive_wait_admitted[OF this st] show "\<exists>a \<in> set (assign (wait_dir c) (deref (wait_dir c) s + 1) s # map snd wakes).
         dir a \<noteq> other_dir c \<and> num_cars a < MAX_CARS \<and>
         num_cars t = num_cars a + 1 \<and> deref (wait_dir c) t = deref (wait_dir c) a - 1" .
  qed
  have d: "dir s = car_dir c \<and> car_dir c \<noteq> other_dir c \<and> num_cars s = MAX_CARS \<longrightarrow>
      \<not> dir s = other_dir c \<and>
      arrive_bridge c 0 [] unlock_rc s =
        (Blocked, assign (wait_dir c) (deref (wait_dir c) s + 1) s)"
    by (simp add: arrive_bridge_def must_wait_def)
  have e: "must_wait c s \<longleftrightarrow> dir s = other_dir c \<or> num_cars s \<ge> MAX_CARS"
    by (simp add: must_wait_def)
  from e a b d show ?thesis by blast
qed

theorem arrival_admission_witness:
  "must_wait hanover_car scenario1 \<and>
   arrive_wait hanover_car [] 0 scenario1 = (Blocked, scenario1) \<and>
   arrive_bridge hanover_car 0 [(0, scenario1\<lparr>num_cars := 2, wait_hanover := 1\<rparr>)] 0 scenario1 =
     (Success, scenario1\<lparr>num_cars := 3, wait_hanover := 0\<rparr>) \<and>
   dir scenario1 = car_dir hanover_car \<and> num_cars scenario1 = MAX_CARS \<and>
   arrive_bridge hanover_car 0 [] 0 scenario1 = (Blocked, scenario1\<lparr>wait_hanover := 1\<rparr>)"
  using arrival_admission[where c = hanover_car and s = scenario1 and unlock_rc = 0
      and s' = "scenario1\<lparr>num_cars := 2, wait_hanover := 1\<rparr>"
      and wakes = "[(0, scenario1\<lparr>num_cars := 2, wait_hanover := 1\<rparr>)]"
      and lock_rc = 0 and st = Success
      and t = "scenario1\<lparr>num_cars := 3, wait_hanover := 0\<rparr>"]
  by (simp add: scenario1_def must_wait_def get_on_def arrive_bridge_def hanover_car_simps constants)

subsection \<open>C4: the two signal counts of a departure\<close>

text \<open>
  Claim C4. In a state with \<^verbatim>\<open>num_cars \<ge> 1\<close>, an \<^verbatim>\<open>exit_bridge\<close> that has the lock
  decrements \<^verbatim>\<open>num_cars\<close>; if the new value is 0 it sets the direction to
  \<^verbatim>\<open>NO_DIRECTION\<close> and \<^verbatim>\<open>num_sig_other\<close> is the minimum of \<^verbatim>\<open>MAX_CARS\<close> and the
  number waiting for the other direction, otherwise the direction stays and
  \<^verbatim>\<open>num_sig_other\<close> is 0; \<^verbatim>\<open>num_sig_current\<close> is the minimum of \<^verbatim>\<open>MAX_CARS\<close> minus
  the new \<^verbatim>\<open>num_cars\<close> and the number waiting for the car's own direction. From one
  car towards Hanover with five cars waiting for Hanover and two for Norwich the counts
  are 3 and 2, as the instance after the theorem shows.
\<close>

theorem exit_bridge_quotas:
  assumes "1 \<le> num_cars s"
    and "exit_update c s = (s', num_sig_current, num_sig_other)"
  shows "fst (snd (exit_bridge c 0 cond_signal unlock_rc s)) = s' \<and>
     num_cars s' = num_cars s - 1 \<and>
     (if num_cars s' = 0
      then dir s' = NO_DIRECTION \<and> num_sig_other = min MAX_CARS (deref (wait_other_dir c) s)
      else dir s' = dir s \<and> num_sig_other = 0) \<and>
     num_sig_current = min (MAX_CARS - num_cars s') (deref (wait_dir c) s)"
proof -
  have a: "fst (snd (exit_bridge c 0 cond_signal unlock_rc s)) = s'"
    using assms(2) by (simp add: exit_bridge_def split: prod.splits bool.splits)
  have b: "num_cars s' = num_cars s - 1"
    using assms(2) by (auto simp: exit_update_def Let_def)
  have c: "if num_cars s' = 0
      then dir s' = NO_DIRECTION \<and> num_sig_other = min MAX_CARS (deref (wait_other_dir c) s)
      else dir s' = dir s \<and> num_sig_other = 0"
    using assms(2) by (auto simp: exit_update_def Let_def min_int_min)
  have d: "num_sig_current = min (MAX_CARS - num_cars s') (deref (wait_dir c) s)"
    using assms(2) by (auto simp: exit_update_def Let_def min_int_min)
  from a b c d show ?thesis by blast
qed

theorem exit_bridge_quotas_witness:
  "1 \<le> num_cars scenario4 \<and>
   exit_update hanover_car scenario4 =
     (\<lparr>str_dir = ''Neither'', dir = NO_DIRECTION, num_cars = 0, wait_hanover = 5, wait_norwich = 2\<rparr>,
      3, 2) \<and>
   fst (snd (exit_bridge hanover_car 0 (\<lambda>k. 0) 0 scenario4)) =
     \<lparr>str_dir = ''Neither'', dir = NO_DIRECTION, num_cars = 0, wait_hanover = 5, wait_norwich = 2\<rparr> \<and>
   min MAX_CARS (deref (wait_other_dir hanover_car) scenario4) = 2 \<and>
   min (MAX_CARS - 0) (deref (wait_dir hanover_car) scenario4) = 3"
proof -
  have n: "1 \<le> num_cars scenario4" by (simp add: scenario4_def)
  have u: "exit_update hanover_car scenario4 =
     (\<lparr>str_dir = ''Neither'', dir = NO_DIRECTION, num_cars = 0, wait_hanover = 5, wait_norwich = 2\<rparr>,
      3, 2)"
    by (simp add: exit_update_def scenario4_def hanover_car_simps min_int_def constants)
  show ?thesis
    using exit_bridge_quotas[OF n u, of "\<lambda>k. 0" 0] n u by simp
qed

subsection \<open>C5: how many waiting cars a departure wakes\<close>




subsection \<open>C6: the order of the signals\<close>

text \<open>
  Claim C6. In every \<^verbatim>\<open>exit_bridge\<close> the calls of \<^verbatim>\<open>pthread_cond_signal\<close> begin the
  sequence of \<^verbatim>\<open>num_sig_current\<close> signals on the car's own condition variable followed by
  \<^verbatim>\<open>num_sig_other\<close> signals on the other one: no signal goes to the other direction
  before all signals of the own direction are sent. When the lock is acquired and no
  signal call fails, and whenever the call returns 0, the calls made are exactly that
  sequence.
\<close>

theorem exit_bridge_signal_order:
  assumes "exit_update c s = (s', num_sig_current, num_sig_other)"
    and "exit_bridge c lock_rc cond_signal unlock_rc s = (st, s'', sigs)"
  shows "take (length sigs)
       (replicate (nat num_sig_current) (current c) @ replicate (nat num_sig_other) (other c)) = sigs \<and>
     (lock_rc = 0 \<and> (\<forall>k. cond_signal k = 0) \<longrightarrow>
       sigs = replicate (nat num_sig_current) (current c) @ replicate (nat num_sig_other) (other c)) \<and>
     (st = Success \<longrightarrow>
       sigs = replicate (nat num_sig_current) (current c) @ replicate (nat num_sig_other) (other c))"
proof -
  from exit_bridge_sigs[OF assms] obtain k1 k2 where
    sigs: "sigs = replicate k1 (current c) @ replicate k2 (other c)"
    and le: "k1 \<le> nat num_sig_current" "k2 \<le> nat num_sig_other"
    and z: "k1 < nat num_sig_current \<longrightarrow> k2 = 0"
    and all: "lock_rc = 0 \<and> (\<forall>k. cond_signal k = 0) \<or> st = Success
      \<longrightarrow> k1 = nat num_sig_current \<and> k2 = nat num_sig_other"
    by blast
  have pre: "take (length sigs)
       (replicate (nat num_sig_current) (current c) @ replicate (nat num_sig_other) (other c)) = sigs"
  proof (cases "k1 < nat num_sig_current")
    case True
    with z have "k2 = 0" by simp
    with True show ?thesis by (simp add: sigs min_def)
  next
    case False
    with le have "k1 = nat num_sig_current" by simp
    then show ?thesis using le by (simp add: sigs min_def)
  qed
  show ?thesis using pre all sigs by auto
qed

theorem exit_bridge_signal_order_witness:
  "exit_update hanover_car scenario4 =
     (\<lparr>str_dir = ''Neither'', dir = NO_DIRECTION, num_cars = 0, wait_hanover = 5, wait_norwich = 2\<rparr>,
      3, 2) \<and>
   exit_bridge hanover_car 0 (\<lambda>k. 0) 0 scenario4 =
     (Success,
      \<lparr>str_dir = ''Neither'', dir = NO_DIRECTION, num_cars = 0, wait_hanover = 5, wait_norwich = 2\<rparr>,
      [want_to_hanover, want_to_hanover, want_to_hanover, want_to_norwich, want_to_norwich]) \<and>
   replicate (nat 3) (current hanover_car) @ replicate (nat 2) (other hanover_car) =
     [want_to_hanover, want_to_hanover, want_to_hanover, want_to_norwich, want_to_norwich]"
  using exit_bridge_signal_order[OF scenario4_update scenario4_exit] scenario4_update scenario4_exit
  by (simp add: hanover_car_simps numeral_eq_Suc)

subsection \<open>C7: the error branches after the loop\<close>

text \<open>
  Claim C7. In a state that satisfies the bridge invariants and in which the loop
  condition is false, none of the three error returns behind the loop (car crash, bridge
  collapse, no direction with cars on the bridge) is taken. So \<^verbatim>\<open>arrive_bridge\<close> takes
  none of them as long as every state it sees satisfies the invariants, and no run of
  the transition system from the initialised bridge ever takes one.
\<close>

theorem arrive_checks_unreachable:
  "(\<not> must_wait c s \<and> bridge_inv s \<longrightarrow>
      fst (get_on c unlock_rc s)
        \<notin> {Failure Car_crash, Failure Bridge_collapse, Failure Invalid_state}) \<and>
   (bridge_inv s \<and> (\<forall>t \<in> snd ` set wakes. bridge_inv t) \<longrightarrow>
      fst (arrive_bridge c lock_rc wakes unlock_rc s)
        \<notin> {Failure Car_crash, Failure Bridge_collapse, Failure Invalid_state}) \<and>
   (run evs initial_config = Some cfg \<longrightarrow> \<not> jammed cfg)"
proof -
  have a: "\<not> must_wait c s \<and> bridge_inv s \<longrightarrow>
      fst (get_on c unlock_rc s)
        \<notin> {Failure Car_crash, Failure Bridge_collapse, Failure Invalid_state}"
    by (simp add: get_on_admits)
  have b: "bridge_inv s \<and> (\<forall>t \<in> snd ` set wakes. bridge_inv t) \<longrightarrow>
      fst (arrive_bridge c lock_rc wakes unlock_rc s)
        \<notin> {Failure Car_crash, Failure Bridge_collapse, Failure Invalid_state}"
    using arrive_wait_no_check_fails[of "assign (wait_dir c) (deref (wait_dir c) s + 1) s" wakes c unlock_rc]
    by (simp add: arrive_bridge_def)
  have c: "run evs initial_config = Some cfg \<longrightarrow> \<not> jammed cfg"
    using reachable_inv by (auto simp: sys_inv_def)
  from a b c show ?thesis by blast
qed

theorem arrive_checks_unreachable_witness:
  "\<not> must_wait hanover_car \<lparr>str_dir = ''Hanover'', dir = TO_HANOVER, num_cars = 2,
                     wait_hanover = 0, wait_norwich = 1\<rparr> \<and>
   bridge_inv \<lparr>str_dir = ''Hanover'', dir = TO_HANOVER, num_cars = 2,
                     wait_hanover = 0, wait_norwich = 1\<rparr> \<and>
   get_on hanover_car 0 \<lparr>str_dir = ''Hanover'', dir = TO_HANOVER, num_cars = 2,
                     wait_hanover = 0, wait_norwich = 1\<rparr> =
     (Success, \<lparr>str_dir = ''Hanover'', dir = TO_HANOVER, num_cars = 3,
                     wait_hanover = - 1, wait_norwich = 1\<rparr>) \<and>
   fst (arrive_bridge norwich_car 0
          [(0, \<lparr>str_dir = ''Neither'', dir = NO_DIRECTION, num_cars = 0,
                     wait_hanover = 0, wait_norwich = 1\<rparr>)] 0
          \<lparr>str_dir = ''Hanover'', dir = TO_HANOVER, num_cars = 2,
                     wait_hanover = 0, wait_norwich = 0\<rparr>) = Success \<and>
   run [Arrive TO_HANOVER, Arrive TO_HANOVER, Arrive TO_NORWICH] initial_config \<noteq> None"
  using arrive_checks_unreachable[of hanover_car "\<lparr>str_dir = ''Hanover'', dir = TO_HANOVER, num_cars = 2,
                     wait_hanover = 0, wait_norwich = 1\<rparr>" 0 "[]" 0
        "[Arrive TO_HANOVER, Arrive TO_HANOVER, Arrive TO_NORWICH]"
        "\<lparr>bridge = \<lparr>str_dir = ''Hanover'', dir = TO_HANOVER, num_cars = 2,
                     wait_hanover = 0, wait_norwich = 1\<rparr>,
           lobby = [norwich_car], crossing = [hanover_car, hanover_car], jammed = False\<rparr>"]
    run_scenario2
  by (simp del: run.simps add: must_wait_def bridge_inv_def get_on_def arrive_bridge_def
      hanover_car_simps norwich_car_simps constants)

subsection \<open>C8: a failed arrival\<close>




subsection \<open>C9: looking at the bridge\<close>

text \<open>
  Claim C9. \<^verbatim>\<open>on_bridge\<close> leaves the bridge as it is: every field has the same value
  after the call as before, whether the lock and the unlock succeed or fail.
\<close>

theorem on_bridge_pure:
  "(let s' = fst (snd (on_bridge lock_rc unlock_rc s)) in
     str_dir s' = str_dir s \<and> dir s' = dir s \<and> num_cars s' = num_cars s \<and>
     wait_hanover s' = wait_hanover s \<and> wait_norwich s' = wait_norwich s \<and> s' = s)"
  by (simp add: on_bridge_def)

subsection \<open>C10: a departure from an empty bridge\<close>

text \<open>
  Claim C10. \<^verbatim>\<open>exit_bridge\<close> does not check that a car is on the bridge. Called with
  \<^verbatim>\<open>num_cars = 0\<close> (and the lock acquired) it leaves \<^verbatim>\<open>num_cars = -1\<close>, does not touch
  the direction (which stays \<^verbatim>\<open>NO_DIRECTION\<close>), sends no signal to the other direction
  and computes \<^verbatim>\<open>num_sig_current\<close> as the minimum of \<^verbatim>\<open>MAX_CARS + 1\<close> and the number
  waiting for the car's direction, which exceeds \<^verbatim>\<open>MAX_CARS\<close> when more than
  \<^verbatim>\<open>MAX_CARS\<close> cars wait; the invariants of the bridge no longer hold. Called with
  \<^verbatim>\<open>num_cars \<ge> 1\<close> it leaves \<^verbatim>\<open>num_cars \<ge> 0\<close> and \<^verbatim>\<open>num_sig_current \<le> MAX_CARS\<close>.
\<close>

theorem exit_bridge_unmatched:
  assumes "num_cars s = 0"
    and "exit_update c s = (s', num_sig_current, num_sig_other)"
  shows "fst (snd (exit_bridge c 0 cond_signal unlock_rc s)) = s' \<and>
     num_cars s' = - 1 \<and> dir s' = dir s \<and>
     num_sig_current = min (MAX_CARS + 1) (deref (wait_dir c) s) \<and>
     num_sig_other = 0 \<and> \<not> bridge_inv s' \<and>
     (MAX_CARS < deref (wait_dir c) s \<longrightarrow> MAX_CARS < num_sig_current) \<and>
     (1 \<le> num_cars t \<longrightarrow>
        0 \<le> num_cars (fst (exit_update c t)) \<and> fst (snd (exit_update c t)) \<le> MAX_CARS)"
proof -
  have a: "fst (snd (exit_bridge c 0 cond_signal unlock_rc s)) = s'"
    using assms(2) by (rule exit_bridge_state)
  have b: "num_cars s' = - 1" "dir s' = dir s" "num_sig_other = 0"
    using assms by (auto simp: exit_update_def Let_def)
  have c: "num_sig_current = min (MAX_CARS + 1) (deref (wait_dir c) s)"
    using assms by (auto simp: exit_update_def Let_def min_int_min)
  have d: "\<not> bridge_inv s'"
    using b(1) by (simp add: bridge_inv_def)
  have e: "MAX_CARS < deref (wait_dir c) s \<longrightarrow> MAX_CARS < num_sig_current"
    unfolding c by simp
  have f: "1 \<le> num_cars t \<longrightarrow>
        0 \<le> num_cars (fst (exit_update c t)) \<and> fst (snd (exit_update c t)) \<le> MAX_CARS"
    by (auto simp: exit_update_def Let_def min_int_def)
  from a b c d e f show ?thesis by blast
qed

theorem exit_bridge_unmatched_witness:
  "num_cars (initial_bridge\<lparr>wait_hanover := 5\<rparr>) = 0 \<and>
   exit_update hanover_car (initial_bridge\<lparr>wait_hanover := 5\<rparr>) =
     (initial_bridge\<lparr>wait_hanover := 5, num_cars := - 1\<rparr>, 4, 0) \<and>
   fst (snd (exit_bridge hanover_car 0 (\<lambda>k. 0) 0 (initial_bridge\<lparr>wait_hanover := 5\<rparr>))) =
     initial_bridge\<lparr>wait_hanover := 5, num_cars := - 1\<rparr> \<and>
   dir (initial_bridge\<lparr>wait_hanover := 5, num_cars := - 1\<rparr>) = NO_DIRECTION \<and>
   min (MAX_CARS + 1) (deref (wait_dir hanover_car) (initial_bridge\<lparr>wait_hanover := 5\<rparr>)) = 4 \<and>
   MAX_CARS < deref (wait_dir hanover_car) (initial_bridge\<lparr>wait_hanover := 5\<rparr>) \<and>
   \<not> bridge_inv (initial_bridge\<lparr>wait_hanover := 5, num_cars := - 1\<rparr>) \<and>
   1 \<le> num_cars scenario4 \<and> num_cars (fst (exit_update hanover_car scenario4)) = 0 \<and>
   fst (snd (exit_update hanover_car scenario4)) = 3"
proof -
  have n: "num_cars (initial_bridge\<lparr>wait_hanover := 5\<rparr>) = 0"
    by (simp add: initial_bridge_def initialize_bridge_def)
  have u: "exit_update hanover_car (initial_bridge\<lparr>wait_hanover := 5\<rparr>) =
     (initial_bridge\<lparr>wait_hanover := 5, num_cars := - 1\<rparr>, 4, 0)"
    by (simp add: exit_update_def initial_bridge_def initialize_bridge_def hanover_car_simps
        min_int_def constants)
  have v: "1 \<le> num_cars scenario4" "num_cars (fst (exit_update hanover_car scenario4)) = 0"
    "fst (snd (exit_update hanover_car scenario4)) = 3"
    by (simp_all add: scenario4_update) (simp add: scenario4_def)
  have w: "dir (initial_bridge\<lparr>wait_hanover := 5, num_cars := - 1\<rparr>) = NO_DIRECTION"
    "min (MAX_CARS + 1) (deref (wait_dir hanover_car) (initial_bridge\<lparr>wait_hanover := 5\<rparr>)) = 4"
    "MAX_CARS < deref (wait_dir hanover_car) (initial_bridge\<lparr>wait_hanover := 5\<rparr>)"
    by (simp_all add: initial_bridge_def initialize_bridge_def hanover_car_simps constants)
  show ?thesis
    using exit_bridge_unmatched[OF n u, where cond_signal = "\<lambda>k. 0" and unlock_rc = 0
        and t = scenario4] n u v w
    by blast
qed

end
